theory Spec2Isabelle
  imports Main "HOL-Library.Word" "HOL-Library.Multiset"
begin

section \<open>The skip-gram window iterator of the word2vec notebook\<close>

text \<open>
  The notebook's only logic of its own is the class \<^verbatim>\<open>WindowIterator\<close>: a sampler of
  (center, context) mini-batches over a tokenised corpus. Its two numpy arrays are objects
  of a store, because \<^verbatim>\<open>np.random.shuffle\<close> works in place; its scalar attributes are
  the fields of a record; the exceptions it can raise are values of a sum type; and what the
  global numpy generator returns is an argument of each call.
\<close>

subsection \<open>Exceptions, arrays and the store\<close>

datatype error = StopIteration | ValueError | IndexError | AttributeError

text \<open>Both arrays of the iterator have dtype \<^verbatim>\<open>np.int32\<close>.\<close>

type_synonym int32 = "32 word"

type_synonym ndarray = "int32 list"

text \<open>
  The store holds the array objects; an address is an index into it, and a new array is
  appended at the end.
\<close>

type_synonym addr = nat

type_synonym heap = "ndarray list"

subsection \<open>The numpy and Python operations the class calls\<close>

text \<open>
  A bound of a Python slice \<^verbatim>\<open>xs[i:j]\<close> over a sequence of length \<open>n\<close>: a negative
  bound counts from the end, and every bound is clamped into \<open>0..n\<close>.
\<close>

definition slice_bound :: "int \<Rightarrow> int \<Rightarrow> nat" where
  "slice_bound n k = nat (if k < 0 then max 0 (k + n) else min k n)"

definition py_slice :: "'a list \<Rightarrow> int \<Rightarrow> int \<Rightarrow> 'a list" where
  "py_slice xs i j =
     (let n = int (length xs); a = slice_bound n i; b = slice_bound n j
      in take (b - a) (drop a xs))"

text \<open>\<^verbatim>\<open>np.arange(a, b)\<close> on integers: \<open>a, a + 1, ..., b - 1\<close>, empty when \<open>b \<le> a\<close>.\<close>

definition arange :: "int \<Rightarrow> int \<Rightarrow> int list" where
  "arange a b = [a..b - 1]"

text \<open>
  \<^verbatim>\<open>ndarray.take\<close> in its default mode \<^verbatim>\<open>'raise'\<close> on an array of length \<open>n\<close>: an index
  in \<open>-n..n-1\<close> is accepted, a negative one counting from the end; any other index raises
  \<^verbatim>\<open>IndexError\<close>. The result is a new array.
\<close>

definition index_ok :: "int \<Rightarrow> int \<Rightarrow> bool" where
  "index_ok n j = (- n \<le> j \<and> j < n)"

definition element :: "ndarray \<Rightarrow> int \<Rightarrow> int32" where
  "element a j = a ! nat (if j < 0 then j + int (length a) else j)"

definition take1 :: "ndarray \<Rightarrow> int list \<Rightarrow> error + int32 list" where
  "take1 a js =
     (if list_all (index_ok (int (length a))) js then Inr (map (element a) js)
      else Inl IndexError)"

definition take2 :: "ndarray \<Rightarrow> int list list \<Rightarrow> error + int32 list list" where
  "take2 a jss =
     (if list_all (list_all (index_ok (int (length a)))) jss
      then Inr (map (map (element a)) jss)
      else Inl IndexError)"

text \<open>
  The global generator \<^verbatim>\<open>np.random\<close> is outside the repository. Each call of the class
  receives what the generator returns as an argument: \<open>randint_value\<close> is the value of
  \<^verbatim>\<open>np.random.randint(high)\<close> when that call returns, and \<open>shuffle_perm\<close> lists, for every
  place of the shuffled array, the place its new element comes from. numpy's contract for
  them is \<open>randint_ok\<close> and \<open>permutation_ok\<close>; it is a hypothesis wherever a theorem
  needs it. \<^verbatim>\<open>np.random.randint(high)\<close> raises \<^verbatim>\<open>ValueError\<close> when \<open>high \<le> 0\<close>, whatever
  the generator's state.
\<close>

record draw =
  randint_value :: int
  shuffle_perm :: "nat list"

definition randint :: "int \<Rightarrow> int \<Rightarrow> error + int" where
  "randint high r = (if high \<le> 0 then Inl ValueError else Inr r)"

definition randint_ok :: "int \<Rightarrow> int \<Rightarrow> bool" where
  "randint_ok high r = (0 \<le> r \<and> r < high)"

definition permutation_ok :: "nat \<Rightarrow> nat list \<Rightarrow> bool" where
  "permutation_ok n p = (mset p = mset [0..<n])"

definition shuffle :: "nat list \<Rightarrow> 'a list \<Rightarrow> 'a list" where
  "shuffle p xs = map (\<lambda>k. xs ! k) p"

subsection \<open>The iterator\<close>

text \<open>
  The attributes \<^verbatim>\<open>__init__\<close> sets. \<open>dataset\<close> and \<open>order\<close> hold the addresses of the two
  arrays; \<open>repeat\<close> is the attribute \<^verbatim>\<open>_repeat\<close>.
\<close>

record window_iterator =
  dataset :: addr
  window :: int
  batch_size :: int
  repeat :: bool
  order :: addr
  current_position :: int
  epoch :: int
  is_new_epoch :: bool

type_synonym state = "heap \<times> window_iterator"

type_synonym batch = "int32 list \<times> int32 list list"

text \<open>
  \<^verbatim>\<open>np.random.permutation(n)\<close> permutes \<^verbatim>\<open>np.arange(n)\<close>, which is empty for \<open>n \<le> 0\<close>.
\<close>

definition n_positions :: "'a list \<Rightarrow> int \<Rightarrow> nat" where
  "n_positions data win = nat (int (length data) - win * 2)"


text \<open>
  \<^verbatim>\<open>__init__\<close>: \<^verbatim>\<open>np.array(dataset, np.int32)\<close> is a new array holding the corpus;
  \<open>perm\<close> is what \<^verbatim>\<open>np.random.permutation(len(dataset) - window * 2)\<close> returned. The cast
  \<^verbatim>\<open>astype(np.int32)\<close> and the in-place \<^verbatim>\<open>self.order += window\<close> on an int32 array both
  wrap around modulo \<open>2 ^ 32\<close>.
\<close>

definition initial_order :: "int \<Rightarrow> nat list \<Rightarrow> ndarray" where
  "initial_order win perm = map (\<lambda>p. word_of_int (int p) + word_of_int win) perm"

definition WindowIterator_init ::
  "heap \<Rightarrow> int32 list \<Rightarrow> int \<Rightarrow> int \<Rightarrow> bool \<Rightarrow> nat list \<Rightarrow> state" where
  "WindowIterator_init h data win bs rep perm =
     (h @ [data] @ [initial_order win perm],
      \<lparr>dataset = length h, window = win, batch_size = bs, repeat = rep,
       order = length h + 1, current_position = 0, epoch = 0, is_new_epoch = False\<rparr>)"

text \<open>
  The local variables of \<^verbatim>\<open>__next__\<close>. \<open>position_of\<close> is \<^verbatim>\<open>self.order[i: i_end]\<close>;
  \<open>offset_of w\<close> is \<^verbatim>\<open>np.concatenate([np.arange(-w, 0), np.arange(1, w + 1)])\<close>; \<open>pos_of\<close>
  is \<^verbatim>\<open>position[:, None] + offset[None, :]\<close>, an int64 array with one row for each center,
  where the int32 positions are read as signed integers.
\<close>

definition position_of :: "heap \<Rightarrow> window_iterator \<Rightarrow> int32 list" where
  "position_of h it =
     py_slice (h ! order it) (current_position it) (current_position it + batch_size it)"

definition offset_of :: "int \<Rightarrow> int list" where
  "offset_of w = arange (- w) 0 @ arange 1 (w + 1)"

definition pos_of :: "int32 list \<Rightarrow> int list \<Rightarrow> int list list" where
  "pos_of position offset = map (\<lambda>p. map (\<lambda>off. sint p + off) offset) position"

text \<open>
  The line \<^verbatim>\<open>w = np.random.randint(self.window - 1) + 1\<close>, with \<open>r\<close> the value the
  generator returns.
\<close>

definition sub_radius :: "int \<Rightarrow> int \<Rightarrow> error + int" where
  "sub_radius win r = (case randint (win - 1) r of Inl e \<Rightarrow> Inl e | Inr x \<Rightarrow> Inr (x + 1))"

text \<open>
  \<^verbatim>\<open>__next__\<close>. Every statement that can raise stands before the first assignment to an
  attribute, so a call that raises leaves the iterator and the store as they were.
  \<^verbatim>\<open>np.random.shuffle(self.order)\<close> overwrites the array at the address \<open>order it\<close>.
  The two arrays returned are new ones (\<^verbatim>\<open>take\<close> copies), so they are values here.
\<close>

definition WindowIterator_next :: "draw \<Rightarrow> state \<Rightarrow> (error + batch) \<times> state" where
  "WindowIterator_next d s =
     (let h = fst s; it = snd s in
      if \<not> repeat it \<and> epoch it > 0 then (Inl StopIteration, s)
      else
        let i = current_position it;
            i_end = i + batch_size it;
            position = position_of h it
        in (case sub_radius (window it) (randint_value d) of
              Inl e \<Rightarrow> (Inl e, s)
            | Inr w \<Rightarrow>
                let offset = offset_of w;
                    pos = pos_of position offset
                in (case take2 (h ! dataset it) pos of
                      Inl e \<Rightarrow> (Inl e, s)
                    | Inr context \<Rightarrow>
                        (case take1 (h ! dataset it) (map sint position) of
                           Inl e \<Rightarrow> (Inl e, s)
                         | Inr center \<Rightarrow>
                             if i_end \<ge> int (length (h ! order it))
                             then (Inr (center, context),
                                   h[order it := shuffle (shuffle_perm d) (h ! order it)],
                                   it\<lparr>epoch := epoch it + 1, is_new_epoch := True,
                                      current_position := 0\<rparr>)
                             else (Inr (center, context),
                                   h,
                                   it\<lparr>is_new_epoch := False,
                                      current_position := i_end\<rparr>)))))"

text \<open>
  A caller that requests one batch after another, one draw of the generator for each
  request, and keeps what every request returned or raised.
\<close>

fun WindowIterator_run :: "draw list \<Rightarrow> state \<Rightarrow> (error + batch) list \<times> state" where
  "WindowIterator_run [] s = ([], s)"
| "WindowIterator_run (d # ds) s =
     (let (r, s') = WindowIterator_next d s;
          (rs, s'') = WindowIterator_run ds s'
      in (r # rs, s''))"

text \<open>
  \<^verbatim>\<open>serialize\<close>. The serializer is chainer's: called with a key and a value, it returns
  the value to keep (the value itself when saving, the stored one when loading). The
  instance attributes are the eight names \<^verbatim>\<open>__init__\<close> assigns, and the base class
  \<^verbatim>\<open>chainer.dataset.Iterator\<close> has only methods, so reading any other attribute raises
  \<^verbatim>\<open>AttributeError\<close>. The three assignments before the read of \<^verbatim>\<open>self._order\<close> have
  taken place when it raises.
\<close>

record serializer =
  ser_int :: "string \<Rightarrow> int \<Rightarrow> int"
  ser_bool :: "string \<Rightarrow> bool \<Rightarrow> bool"

definition attribute_names :: "string list" where
  "attribute_names =
     [''dataset'', ''window'', ''batch_size'', ''_repeat'', ''order'',
      ''current_position'', ''epoch'', ''is_new_epoch'']"

definition hasattr :: "string \<Rightarrow> bool" where
  "hasattr name = List.member attribute_names name"

definition WindowIterator_serialize ::
  "serializer \<Rightarrow> window_iterator \<Rightarrow> (error + unit) \<times> window_iterator" where
  "WindowIterator_serialize ser it =
     (let it1 = it\<lparr>current_position :=
                     ser_int ser ''current_position'' (current_position it)\<rparr>;
          it2 = it1\<lparr>epoch := ser_int ser ''epoch'' (epoch it1)\<rparr>;
          it3 = it2\<lparr>is_new_epoch := ser_bool ser ''is_new_epoch'' (is_new_epoch it2)\<rparr>
      in if hasattr ''_order'' then (Inr (), it3) else (Inl AttributeError, it3))"

subsection \<open>Notions of the specification\<close>

text \<open>The ceiling of \<open>a / b\<close> for a positive \<open>b\<close>.\<close>

definition ceil_div :: "int \<Rightarrow> int \<Rightarrow> int" where
  "ceil_div a b = - ((- a) div b)"

text \<open>A request that returned a batch.\<close>

definition returned :: "error + batch \<Rightarrow> bool" where
  "returned r = (case r of Inl e \<Rightarrow> False | Inr b \<Rightarrow> True)"



subsection \<open>Concrete inputs\<close>

text \<open>
  A corpus of ten tokens with window 3 and batches of 3, so that the four positions
  \<open>3..6\<close> make a pass of two requests; the states after one to four requests; the
  same iterator without repetition; a corpus with no position at all for window 2; and a
  corpus (each token the index of its place) and a permutation long enough for a position
  to leave the range of int32.
\<close>

definition example_corpus :: "int32 list" where
  "example_corpus = [10, 11, 12, 13, 14, 15, 16, 17, 18, 19]"

definition example_draw :: draw where
  "example_draw = \<lparr>randint_value = 1, shuffle_perm = [1, 0, 3, 2]\<rparr>"

definition example_start :: state where
  "example_start = WindowIterator_init [] example_corpus 3 3 True [2, 0, 3, 1]"

definition example_second :: state where
  "example_second = snd (WindowIterator_run [example_draw] example_start)"

definition example_third :: state where
  "example_third = snd (WindowIterator_run [example_draw, example_draw] example_start)"



definition example_once :: state where
  "example_once = WindowIterator_init [] example_corpus 3 3 False [2, 0, 3, 1]"

definition example_exhausted :: state where
  "example_exhausted = snd (WindowIterator_run [example_draw, example_draw] example_once)"

definition short_corpus :: "int32 list" where
  "short_corpus = [0, 1, 2, 3]"



definition big_corpus :: "int32 list" where
  "big_corpus = map word_of_nat [0..<2147483653]"

definition wrapping_permutation :: "nat list" where
  "wrapping_permutation = 2147483648 # [0..<2147483648]"

section \<open>Single requests\<close>

lemma next_raises_keeps_state:
  "fst (WindowIterator_next d s) = Inl e \<Longrightarrow> snd (WindowIterator_next d s) = s"
  unfolding WindowIterator_next_def
  by (auto simp: Let_def split: if_splits sum.splits)

lemma next_returned:
  assumes "WindowIterator_next d (h, it) = (Inr (center, context), h', it')"
  shows "repeat it \<or> epoch it \<le> 0"
    and "1 < window it"
    and "center = map (element (h ! dataset it)) (map sint (position_of h it))"
    and "context = map (map (element (h ! dataset it)))
           (pos_of (position_of h it) (offset_of (randint_value d + 1)))"
    and "int (length (h ! order it)) \<le> current_position it + batch_size it \<Longrightarrow>
           h' = h[order it := shuffle (shuffle_perm d) (h ! order it)] \<and>
           it' = it\<lparr>epoch := epoch it + 1, is_new_epoch := True, current_position := 0\<rparr>"
    and "current_position it + batch_size it < int (length (h ! order it)) \<Longrightarrow>
           h' = h \<and>
           it' = it\<lparr>is_new_epoch := False,
                      current_position := current_position it + batch_size it\<rparr>"
  using assms
  unfolding WindowIterator_next_def sub_radius_def randint_def take1_def take2_def
  by (auto simp: Let_def split: if_splits sum.splits)

lemma returned_Inr: "returned r \<Longrightarrow> \<exists>center context. r = Inr (center, context)"
  by (cases r) (auto simp: returned_def)

lemma next_frame:
  assumes "WindowIterator_next d (h, it) = (r, h', it')"
  shows "length h' = length h \<and> (\<forall>a. a \<noteq> order it \<longrightarrow> h' ! a = h ! a) \<and>
         dataset it' = dataset it \<and> order it' = order it \<and> window it' = window it \<and>
         batch_size it' = batch_size it \<and> repeat it' = repeat it"
  using assms
  unfolding WindowIterator_next_def
  by (auto simp: Let_def split: if_splits sum.splits)

lemma next_window_one:
  assumes "window it = 1" and "repeat it \<or> epoch it \<le> 0"
  shows "WindowIterator_next d (h, it) = (Inl ValueError, h, it)"
  using assms
  by (auto simp: WindowIterator_next_def sub_radius_def randint_def Let_def)

lemma next_IndexError:
  assumes "fst (WindowIterator_next d (h, it)) = Inl IndexError"
  shows "\<not> (list_all (list_all (index_ok (int (length (h ! dataset it)))))
             (pos_of (position_of h it) (offset_of (randint_value d + 1))) \<and>
           list_all (index_ok (int (length (h ! dataset it)))) (map sint (position_of h it)))"
  using assms
  unfolding WindowIterator_next_def sub_radius_def randint_def take1_def take2_def
  by (auto simp: Let_def split: if_splits sum.splits)

lemma length_shuffle: "length (shuffle p xs) = length p"
  by (simp add: shuffle_def)

lemma permutation_ok_length: "permutation_ok n p \<Longrightarrow> length p = n"
  unfolding permutation_ok_def by (metis size_mset length_upt diff_zero)

lemma permutation_ok_set: "permutation_ok n p \<Longrightarrow> set p = {0..<n}"
  unfolding permutation_ok_def by (metis mset_eq_setD set_upt)

lemma mset_shuffle:
  assumes "permutation_ok (length xs) p"
  shows "mset (shuffle p xs) = mset xs"
proof -
  have "mset (shuffle p xs) = image_mset ((!) xs) (mset p)"
    by (simp add: shuffle_def)
  also have "\<dots> = image_mset ((!) xs) (mset [0..<length xs])"
    using assms by (simp add: permutation_ok_def)
  also have "\<dots> = mset (map ((!) xs) [0..<length xs])"
    by simp
  also have "\<dots> = mset xs"
    by (simp add: map_nth)
  finally show ?thesis .
qed

lemma next_order_mset:
  assumes "WindowIterator_next d (h, it) = (r, h', it')"
    and "order it < length h"
    and "permutation_ok (length (h ! order it)) (shuffle_perm d)"
  shows "mset (h' ! order it) = mset (h ! order it)"
  using assms mset_shuffle [of "h ! order it" "shuffle_perm d"]
  unfolding WindowIterator_next_def
  by (auto simp: Let_def split: if_splits sum.splits)

lemma set_py_slice: "set (py_slice xs i j) \<subseteq> set xs"
  unfolding py_slice_def Let_def
  by (meson set_take_subset set_drop_subset subset_trans)


lemma offset_of_bounds:
  assumes "off \<in> set (offset_of w)"
  shows "- w \<le> off \<and> off \<le> w \<and> off \<noteq> 0"
  using assms by (auto simp: offset_of_def arange_def)



section \<open>Sequences of requests\<close>

lemma run_append:
  "WindowIterator_run (xs @ ys) s =
     (fst (WindowIterator_run xs s) @ fst (WindowIterator_run ys (snd (WindowIterator_run xs s))),
      snd (WindowIterator_run ys (snd (WindowIterator_run xs s))))"
  by (induction xs arbitrary: s) (auto split: prod.splits)

lemma run_frame:
  assumes "WindowIterator_run ds (h, it) = (rs, h', it')"
  shows "length h' = length h \<and> (\<forall>a. a \<noteq> order it \<longrightarrow> h' ! a = h ! a) \<and>
         dataset it' = dataset it \<and> order it' = order it \<and> window it' = window it \<and>
         batch_size it' = batch_size it \<and> repeat it' = repeat it"
  using assms
proof (induction ds arbitrary: h it rs)
  case Nil
  then show ?case by simp
next
  case (Cons d ds)
  from Cons.prems obtain r h1 it1 rs' where
    step: "WindowIterator_next d (h, it) = (r, h1, it1)" and
    rest: "WindowIterator_run ds (h1, it1) = (rs', h', it')"
    by (auto split: prod.splits)
  from next_frame [OF step] Cons.IH [OF rest] show ?case by simp
qed

lemma run_order_mset:
  assumes "WindowIterator_run ds (h, it) = (rs, h', it')"
    and "order it < length h"
    and "list_all (\<lambda>d. permutation_ok (length (h ! order it)) (shuffle_perm d)) ds"
  shows "mset (h' ! order it) = mset (h ! order it)"
  using assms
proof (induction ds arbitrary: h it rs)
  case Nil
  then show ?case by simp
next
  case (Cons d ds)
  from Cons.prems(1) obtain r h1 it1 rs' where
    step: "WindowIterator_next d (h, it) = (r, h1, it1)" and
    rest: "WindowIterator_run ds (h1, it1) = (rs', h', it')"
    by (auto split: prod.splits)
  have ok: "permutation_ok (length (h ! order it)) (shuffle_perm d)"
    using Cons.prems(3) by simp
  have m1: "mset (h1 ! order it) = mset (h ! order it)"
    by (rule next_order_mset [OF step Cons.prems(2) ok])
  have len: "length (h1 ! order it) = length (h ! order it)"
    using m1 by (metis size_mset)
  have fr: "length h1 = length h" "order it1 = order it"
    using next_frame [OF step] by simp_all
  have "mset (h' ! order it1) = mset (h1 ! order it1)"
    by (rule Cons.IH [OF rest]) (use Cons.prems fr len in simp_all)
  with m1 fr show ?case by simp
qed

lemma run_stopped:
  assumes "\<not> repeat it" and "0 < epoch it"
  shows "WindowIterator_run ds (h, it) = (replicate (length ds) (Inl StopIteration), h, it)"
proof (induction ds)
  case Nil
  then show ?case by simp
next
  case (Cons d ds)
  have "WindowIterator_next d (h, it) = (Inl StopIteration, h, it)"
    using assms by (simp add: WindowIterator_next_def Let_def)
  with Cons.IH show ?case by simp
qed

lemma run_before_boundary:
  assumes "WindowIterator_run ds (h, it) = (rs, h', it')"
    and "list_all returned rs"
    and "0 < batch_size it"
    and "current_position it + int (length ds) * batch_size it < int (length (h ! order it))"
  shows "h' = h \<and> epoch it' = epoch it \<and>
         current_position it' = current_position it + int (length ds) * batch_size it"
  using assms
proof (induction ds arbitrary: it rs)
  case Nil
  then show ?case by simp
next
  case (Cons d ds)
  from Cons.prems(1) obtain r h1 it1 rs' where
    step: "WindowIterator_next d (h, it) = (r, h1, it1)" and
    rest: "WindowIterator_run ds (h1, it1) = (rs', h', it')" and
    rs: "rs = r # rs'"
    by (auto split: prod.splits)
  from Cons.prems(2) rs have "returned r" and ok': "list_all returned rs'"
    by simp_all
  then obtain center ctx where r: "r = Inr (center, ctx)"
    using returned_Inr by blast
  have "0 \<le> int (length ds) * batch_size it"
    using Cons.prems(3) by simp
  then have lt: "current_position it + batch_size it < int (length (h ! order it))"
    using Cons.prems(4) by (simp add: algebra_simps)
  from next_returned(6) [OF step [unfolded r] lt]
  have h1: "h1 = h" and it1: "it1 = it\<lparr>is_new_epoch := False,
      current_position := current_position it + batch_size it\<rparr>"
    by simp_all
  have "h' = h1 \<and> epoch it' = epoch it1 \<and>
         current_position it' = current_position it1 + int (length ds) * batch_size it1"
    by (rule Cons.IH [OF rest [unfolded h1] ok', folded h1])
      (use Cons.prems(3,4) it1 h1 in \<open>simp_all add: algebra_simps\<close>)
  then show ?case
    using h1 it1 by (simp add: algebra_simps)
qed


section \<open>Iterators as constructed\<close>

lemma init_facts:
  "fst (WindowIterator_init h0 data C B rep perm) ! length h0 = data"
  "fst (WindowIterator_init h0 data C B rep perm) ! (length h0 + 1) = initial_order C perm"
  "length (fst (WindowIterator_init h0 data C B rep perm)) = length h0 + 2"
  "take (length h0) (fst (WindowIterator_init h0 data C B rep perm)) = h0"
  "snd (WindowIterator_init h0 data C B rep perm) =
     \<lparr>dataset = length h0, window = C, batch_size = B, repeat = rep,
      order = length h0 + 1, current_position = 0, epoch = 0, is_new_epoch = False\<rparr>"
  by (simp_all add: WindowIterator_init_def nth_append)

lemma length_initial_order: "length (initial_order C perm) = length perm"
  by (simp add: initial_order_def)

lemma run_init_frame:
  assumes "WindowIterator_run ds (WindowIterator_init h0 data C B rep perm) = (rs, h, it)"
  shows "dataset it = length h0" and "order it = length h0 + 1" and "window it = C"
    and "batch_size it = B" and "repeat it = rep" and "length h = length h0 + 2"
    and "h ! dataset it = data" and "take (length h0) h = h0"
proof -
  obtain hi iti where i: "WindowIterator_init h0 data C B rep perm = (hi, iti)"
    by (cases "WindowIterator_init h0 data C B rep perm")
  have hi: "hi ! length h0 = data" "length hi = length h0 + 2" "take (length h0) hi = h0"
    and iti: "iti = \<lparr>dataset = length h0, window = C, batch_size = B, repeat = rep,
      order = length h0 + 1, current_position = 0, epoch = 0, is_new_epoch = False\<rparr>"
    using init_facts [of h0 data C B rep perm] by (simp_all add: i)
  have fr: "length h = length hi \<and> (\<forall>a. a \<noteq> order iti \<longrightarrow> h ! a = hi ! a) \<and>
         dataset it = dataset iti \<and> order it = order iti \<and> window it = window iti \<and>
         batch_size it = batch_size iti \<and> repeat it = repeat iti"
    by (rule run_frame) (use assms i in simp)
  show "dataset it = length h0" "order it = length h0 + 1" "window it = C"
    "batch_size it = B" "repeat it = rep" "length h = length h0 + 2"
    using fr hi iti by simp_all
  show "h ! dataset it = data"
    using fr hi iti by simp
  show "take (length h0) h = h0"
  proof (rule nth_equalityI)
    show "length (take (length h0) h) = length h0"
      using fr hi by simp
    fix a assume "a < length (take (length h0) h)"
    then have a: "a < length h0" by simp
    then have "h ! a = hi ! a" using fr iti by simp
    moreover have "hi ! a = h0 ! a"
      using hi(3) a by (metis nth_take)
    ultimately show "take (length h0) h ! a = h0 ! a" using a by simp
  qed
qed

lemma run_init_order_mset:
  assumes "WindowIterator_run ds (WindowIterator_init h0 data C B rep perm) = (rs, h, it)"
    and "list_all (\<lambda>d. permutation_ok (length perm) (shuffle_perm d)) ds"
  shows "mset (h ! order it) = mset (initial_order C perm)"
proof -
  obtain hi iti where i: "WindowIterator_init h0 data C B rep perm = (hi, iti)"
    by (cases "WindowIterator_init h0 data C B rep perm")
  have hi: "hi ! (length h0 + 1) = initial_order C perm" "length hi = length h0 + 2"
    and iti: "order iti = length h0 + 1"
    using init_facts [of h0 data C B rep perm] by (simp_all add: i)
  have "mset (h ! order iti) = mset (hi ! order iti)"
    by (rule run_order_mset [where ds = ds and rs = rs and it' = it])
      (use assms i hi iti in \<open>simp_all add: initial_order_def\<close>)
  moreover have "order it = order iti"
    using run_init_frame(2) [OF assms(1)] iti by simp
  ultimately show ?thesis using hi iti by simp
qed

lemma sint_position:
  assumes "- (2 ^ 31) \<le> C" and "int p + C < 2 ^ 31"
  shows "sint (word_of_int (int p) + word_of_int C :: 32 word) = int p + C"
proof -
  have e: "(word_of_int (int p) + word_of_int C :: 32 word) = word_of_int (int p + C)"
    by simp
  have "signed_take_bit (31::nat) (int p + C) = int p + C"
    using assms by (intro signed_take_bit_int_eq_self) simp_all
  then have "sint (word_of_int (int p + C) :: 32 word) = int p + C"
    by (simp only: signed_of_int) simp
  then show ?thesis
    by (simp only: e)
qed

lemma initial_order_range:
  assumes "permutation_ok (n_positions data C) perm"
    and "2 * C < int (length data)"
    and "- (2 ^ 31) \<le> C"
    and "int (length data) - C \<le> 2 ^ 31"
    and "x \<in> set (initial_order C perm)"
  shows "C \<le> sint x \<and> sint x \<le> int (length data) - C - 1"
proof -
  from assms(5) obtain p where p: "p \<in> set perm" and x: "x = word_of_int (int p) + word_of_int C"
    by (auto simp: initial_order_def)
  from p assms(1) have "p < n_positions data C"
    by (simp add: permutation_ok_set)
  then have pb: "int p < int (length data) - 2 * C"
    using assms(2) by (simp add: n_positions_def)
  then have "int p + C < 2 ^ 31" using assms(4) by simp
  then have "sint x = int p + C"
    unfolding x by (rule sint_position [OF assms(3)])
  with pb show ?thesis by simp
qed



lemma wrapped_position:
  fixes data :: "int32 list" and rest :: "nat list"
  assumes "length data = 2147483653" and "data ! 6 = 6" and "data ! 7 = 7" and "data ! 8 = 8"
  shows "fst (WindowIterator_next \<lparr>randint_value = 0, shuffle_perm = []\<rparr>
           (WindowIterator_init [] data 2 1 True (2147483648 # rest))) = Inr ([7], [[6, 8]])"
    and "map sint (position_of (fst (WindowIterator_init [] data 2 1 True (2147483648 # rest)))
           (snd (WindowIterator_init [] data 2 1 True (2147483648 # rest)))) = [- 2147483646]"
  using assms
  by (simp_all add: WindowIterator_next_def WindowIterator_init_def initial_order_def
      position_of_def py_slice_def slice_bound_def sub_radius_def randint_def offset_of_def
      arange_def pos_of_def take1_def take2_def index_ok_def element_def Let_def)

section \<open>Passes over the sampling order\<close>

lemma ceil_div_bounds:
  assumes "0 < b" and "0 < a"
  shows "1 \<le> ceil_div a b" and "(ceil_div a b - 1) * b < a" and "a \<le> ceil_div a b * b"
proof -
  define q where "q = (- a) div b"
  define r where "r = (- a) mod b"
  have e: "q * b + r = - a"
    unfolding q_def r_def by simp
  have r: "0 \<le> r" "r < b"
    unfolding r_def using assms(1) by simp_all
  have k: "ceil_div a b = - q"
    by (simp add: ceil_div_def q_def)
  have kb: "ceil_div a b * b = a + r"
    using e by (simp add: k algebra_simps)
  show "a \<le> ceil_div a b * b"
    using kb r by simp
  show "(ceil_div a b - 1) * b < a"
    using kb r by (simp add: algebra_simps)
  show "1 \<le> ceil_div a b"
  proof (rule ccontr)
    assume "\<not> 1 \<le> ceil_div a b"
    then have "ceil_div a b \<le> 0" by simp
    then have "ceil_div a b * b \<le> 0"
      using assms(1) by (simp add: mult_le_0_iff)
    with kb r assms(2) show False by simp
  qed
qed





section \<open>The claims\<close>

subsection \<open>Center positions and context indices\<close>

text \<open>
  Claim C1, as the code has it. For a corpus of length \<open>N\<close> and a window \<open>C\<close> with
  \<open>N > 2C\<close> and \<open>N - C \<le> 2 ^ 31\<close> (every position fits the int32 sampling order), in every
  state the iterator reaches from its construction, every center position of the next
  request lies in \<open>C..N-C-1\<close>, every context index of the request lies in \<open>0..N-1\<close>,
  and the request does not raise \<^verbatim>\<open>IndexError\<close>.
\<close>

theorem center_positions_in_range:
  assumes N: "2 * C < int (length data)"
    and fit: "int (length data) - C \<le> 2 ^ 31"
    and perm: "permutation_ok (n_positions data C) perm"
    and sh: "list_all (\<lambda>d. permutation_ok (n_positions data C) (shuffle_perm d)) ds"
    and run: "WindowIterator_run ds (WindowIterator_init h0 data C B rep perm) = (rs, h, it)"
    and r: "randint_ok (C - 1) (randint_value d)"
  shows "list_all (\<lambda>p. C \<le> sint p \<and> sint p \<le> int (length data) - C - 1) (position_of h it) \<and>
         list_all (list_all (\<lambda>j. 0 \<le> j \<and> j < int (length data)))
           (pos_of (position_of h it) (offset_of (randint_value d + 1))) \<and>
         fst (WindowIterator_next d (h, it)) \<noteq> Inl IndexError"
proof -
  have len: "length perm = n_positions data C"
    by (rule permutation_ok_length [OF perm])
  have C2: "2 \<le> C" and w: "1 \<le> randint_value d + 1" "randint_value d + 1 \<le> C - 1"
    using r by (simp_all add: randint_ok_def)
  have m: "mset (h ! order it) = mset (initial_order C perm)"
    by (rule run_init_order_mset [OF run]) (use sh len in simp)
  have data: "h ! dataset it = data"
    by (rule run_init_frame(7) [OF run])
  have rng: "C \<le> sint p \<and> sint p \<le> int (length data) - C - 1"
    if "p \<in> set (position_of h it)" for p
  proof -
    have "p \<in> set (h ! order it)"
      using that set_py_slice [of "h ! order it" "current_position it"
          "current_position it + batch_size it"]
      unfolding position_of_def by auto
    then have "p \<in> set (initial_order C perm)"
      using m by (metis mset_eq_setD)
    then show ?thesis
      using initial_order_range [OF perm N _ fit] C2 by simp
  qed
  have c1: "list_all (\<lambda>p. C \<le> sint p \<and> sint p \<le> int (length data) - C - 1) (position_of h it)"
    using rng by (simp add: list_all_iff)
  have ctx: "0 \<le> sint p + off \<and> sint p + off < int (length data)"
    if "p \<in> set (position_of h it)" "off \<in> set (offset_of (randint_value d + 1))" for p off
    using rng [OF that(1)] offset_of_bounds [OF that(2)] w by simp
  have c2: "list_all (list_all (\<lambda>j. 0 \<le> j \<and> j < int (length data)))
           (pos_of (position_of h it) (offset_of (randint_value d + 1)))"
    using ctx by (auto simp: list_all_iff pos_of_def)
  have ir: "index_ok n j" if "0 \<le> j" "j < n" for n j
    using that by (simp add: index_ok_def)
  have i2: "list_all (list_all (index_ok (int (length data))))
           (pos_of (position_of h it) (offset_of (randint_value d + 1)))"
    using ctx ir unfolding pos_of_def list_all_iff by fastforce
  have i1: "list_all (index_ok (int (length data))) (map sint (position_of h it))"
    using rng C2 ir unfolding list_all_iff by fastforce
  have c3: "fst (WindowIterator_next d (h, it)) \<noteq> Inl IndexError"
    using next_IndexError [of d h it] i1 i2 data by auto
  from c1 c2 c3 show ?thesis by simp
qed

theorem center_positions_in_range_witness:
  "list_all (\<lambda>p. 3 \<le> sint p \<and> sint p \<le> int (length example_corpus) - 3 - 1)
     (position_of [example_corpus, [5, 3, 6, 4]]
        \<lparr>dataset = 0, window = 3, batch_size = 3, repeat = False, order = 1,
         current_position = 3, epoch = 0, is_new_epoch = False\<rparr>) \<and>
   list_all (list_all (\<lambda>j. 0 \<le> j \<and> j < int (length example_corpus)))
     (pos_of (position_of [example_corpus, [5, 3, 6, 4]]
        \<lparr>dataset = 0, window = 3, batch_size = 3, repeat = False, order = 1,
         current_position = 3, epoch = 0, is_new_epoch = False\<rparr>)
        (offset_of (randint_value example_draw + 1))) \<and>
   fst (WindowIterator_next example_draw ([example_corpus, [5, 3, 6, 4]],
        \<lparr>dataset = 0, window = 3, batch_size = 3, repeat = False, order = 1,
         current_position = 3, epoch = 0, is_new_epoch = False\<rparr>)) \<noteq> Inl IndexError"
proof -
  have N: "2 * 3 < int (length example_corpus)"
    by (simp add: example_corpus_def)
  have fit: "int (length example_corpus) - 3 \<le> 2 ^ 31"
    by (simp add: example_corpus_def)
  have perm: "permutation_ok (n_positions example_corpus 3) [2, 0, 3, 1]"
    by code_simp
  have sh: "list_all (\<lambda>d. permutation_ok (n_positions example_corpus 3) (shuffle_perm d))
      [example_draw]"
    by code_simp
  have run: "WindowIterator_run [example_draw]
      (WindowIterator_init [] example_corpus 3 3 False [2, 0, 3, 1]) =
      ([Inr ([15, 13, 16], [[13, 14, 16, 17], [11, 12, 14, 15], [14, 15, 17, 18]])],
       [example_corpus, [5, 3, 6, 4]],
       \<lparr>dataset = 0, window = 3, batch_size = 3, repeat = False, order = 1,
         current_position = 3, epoch = 0, is_new_epoch = False\<rparr>)"
    by code_simp
  have r: "randint_ok (3 - 1) (randint_value example_draw)"
    by code_simp
  show ?thesis
    by (rule center_positions_in_range [OF N fit perm sh run r])
qed

text \<open>
  Claim C1 as stated, without the bound on \<open>N - C\<close>, fails: with a corpus of
  \<open>2 ^ 31 + 5\<close> tokens and window 2, the position \<open>2 ^ 31 + 2\<close> wraps around in the int32
  array to \<open>- 2 ^ 31 + 2\<close>, and the first request returns a batch for this center:
  \<^verbatim>\<open>take\<close> reads the negative indices from the end of the corpus, at the places 6, 7
  and 8.
\<close>

theorem center_positions_counterexample:
  "2 * 2 < int (length big_corpus) \<and>
   permutation_ok (n_positions big_corpus 2) wrapping_permutation \<and>
   randint_ok (2 - 1) 0 \<and>
   fst (WindowIterator_next \<lparr>randint_value = 0, shuffle_perm = []\<rparr>
         (WindowIterator_init [] big_corpus 2 1 True wrapping_permutation)) =
     Inr ([7], [[6, 8]]) \<and>
   map sint (position_of (fst (WindowIterator_init [] big_corpus 2 1 True wrapping_permutation))
         (snd (WindowIterator_init [] big_corpus 2 1 True wrapping_permutation))) =
     [- 2147483646]"
proof -
  have len: "length big_corpus = 2147483653"
    by (simp add: big_corpus_def)
  have el: "big_corpus ! 6 = 6" "big_corpus ! 7 = 7" "big_corpus ! 8 = 8"
    by (simp_all add: big_corpus_def)
  have "[0..<Suc 2147483648] = [0..<2147483648] @ [2147483648]"
    by (rule upt_Suc_append) simp
  then have "mset wrapping_permutation = mset [0..<Suc 2147483648]"
    by (simp only: wrapping_permutation_def mset.simps mset_append) simp
  moreover have "n_positions big_corpus 2 = Suc 2147483648"
    by (simp add: n_positions_def len)
  ultimately have p: "permutation_ok (n_positions big_corpus 2) wrapping_permutation"
    by (simp only: permutation_ok_def)
  have r: "randint_ok (2 - 1) 0"
    by (simp add: randint_ok_def)
  show ?thesis
    using len p r wrapped_position [OF len el, of "[0..<2147483648]"]
    by (simp add: wrapping_permutation_def)
qed

subsection \<open>The sub-radius\<close>

text \<open>
  Claim C2 says the sub-radius \<open>w\<close> is drawn from \<open>1..C\<close>. The code draws
  \<^verbatim>\<open>np.random.randint(self.window - 1) + 1\<close>: for every value the generator can return,
  \<open>w\<close> lies in \<open>1..C-1\<close>, so \<open>w = C\<close> is never drawn. With window 2 the sub-radius is
  always 1.
\<close>

theorem sub_radius_below_window:
  assumes "randint_ok (win - 1) r"
  shows "sub_radius win r = Inr (r + 1) \<and> 1 \<le> r + 1 \<and> r + 1 \<le> win - 1"
  using assms by (auto simp: sub_radius_def randint_def randint_ok_def)

theorem sub_radius_below_window_witness:
  "randint_ok (2 - 1) 0 \<and> sub_radius 2 0 = Inr (0 + 1) \<and> (1::int) \<le> 0 + 1 \<and> (0::int) + 1 \<le> 2 - 1"
proof -
  have r: "randint_ok (2 - 1) 0"
    by (simp add: randint_ok_def)
  from sub_radius_below_window [OF r] r show ?thesis by simp
qed

subsection \<open>Exhaustion of a pass without repetition\<close>

text \<open>
  Claim C3, as the code has it. With \<^verbatim>\<open>repeat=False\<close>, a batch size \<open>B \<ge> 1\<close> and a
  corpus of length \<open>N > 2C\<close>: after \<open>ceil ((N - 2C) / B)\<close> requests that all returned a
  batch, every later request raises \<^verbatim>\<open>StopIteration\<close> and leaves the state as it is.
\<close>

theorem exhaustion:
  assumes B: "0 < B"
    and N: "2 * C < int (length data)"
    and perm: "permutation_ok (n_positions data C) perm"
    and len: "int (length ds) = ceil_div (int (length data) - 2 * C) B"
    and run: "WindowIterator_run ds (WindowIterator_init h0 data C B False perm) = (rs, s)"
    and ok: "list_all returned rs"
  shows "WindowIterator_run ds' s = (replicate (length ds') (Inl StopIteration), s)"
proof -
  define L where "L = int (length data) - 2 * C"
  define k where "k = ceil_div L B"
  have L: "0 < L" using N by (simp add: L_def)
  have k: "1 \<le> k" "(k - 1) * B < L" "L \<le> k * B"
    unfolding k_def using ceil_div_bounds [OF B L] by simp_all
  have lds: "int (length ds) = k"
    using len by (simp add: k_def L_def)
  then have "ds \<noteq> []" using k(1) by auto
  then obtain ds1 d where ds: "ds = ds1 @ [d]"
    by (metis rev_exhaust)
  have l1: "int (length ds1) = k - 1"
    using lds ds by simp
  obtain hi iti where i: "WindowIterator_init h0 data C B False perm = (hi, iti)"
    by (cases "WindowIterator_init h0 data C B False perm")
  have iti: "iti = \<lparr>dataset = length h0, window = C, batch_size = B, repeat = False,
      order = length h0 + 1, current_position = 0, epoch = 0, is_new_epoch = False\<rparr>"
    and hi: "hi ! (length h0 + 1) = initial_order C perm"
    using init_facts [of h0 data C B False perm] by (simp_all add: i)
  have ho: "hi ! order iti = initial_order C perm"
    using hi iti by simp
  have lo: "int (length (hi ! order iti)) = L"
    using permutation_ok_length [OF perm] N
    by (simp add: ho length_initial_order n_positions_def L_def)
  obtain rs1 h1 it1 where r1: "WindowIterator_run ds1 (hi, iti) = (rs1, h1, it1)"
    by (metis prod_cases3)
  obtain r s2 where st: "WindowIterator_next d (h1, it1) = (r, s2)"
    by (metis surj_pair)
  have "WindowIterator_run ds (hi, iti) = (rs1 @ [r], s2)"
    by (simp add: ds run_append r1 st)
  with run i have rs: "rs = rs1 @ [r]" and s: "s = s2"
    by simp_all
  from ok rs have ok1: "list_all returned rs1" and okr: "returned r"
    by simp_all
  have b1: "h1 = hi \<and> epoch it1 = epoch iti \<and>
         current_position it1 = current_position iti + int (length ds1) * batch_size iti"
    by (rule run_before_boundary [OF r1 ok1]) (use B k l1 lo iti in simp_all)
  have f1: "order it1 = order iti" "batch_size it1 = batch_size iti" "repeat it1 = repeat iti"
    using run_frame [OF r1] by simp_all
  obtain center ctx where r: "r = Inr (center, ctx)"
    using returned_Inr [OF okr] by blast
  obtain h2 it2 where s2: "s2 = (h2, it2)" by (cases s2)
  have ge: "int (length (h1 ! order it1)) \<le> current_position it1 + batch_size it1"
    using b1 f1 lo l1 k(3) iti by (simp add: algebra_simps)
  from next_returned(5) [OF st [unfolded r s2] ge]
  have "epoch it2 = epoch it1 + 1" "repeat it2 = repeat it1"
    by simp_all
  then have "\<not> repeat it2" "0 < epoch it2"
    using b1 f1 iti by simp_all
  then show ?thesis
    unfolding s s2 by (rule run_stopped)
qed

theorem exhaustion_witness:
  "WindowIterator_run [example_draw, example_draw, example_draw] example_exhausted =
     (replicate (length [example_draw, example_draw, example_draw]) (Inl StopIteration),
      example_exhausted)"
proof -
  have B: "(0::int) < 3"
    by simp
  have N: "2 * 3 < int (length example_corpus)"
    by code_simp
  have perm: "permutation_ok (n_positions example_corpus 3) [2, 0, 3, 1]"
    by code_simp
  have len: "int (length [example_draw, example_draw]) =
      ceil_div (int (length example_corpus) - 2 * 3) 3"
    by code_simp
  have run: "WindowIterator_run [example_draw, example_draw]
      (WindowIterator_init [] example_corpus 3 3 False [2, 0, 3, 1]) =
      ([Inr ([15, 13, 16], [[13, 14, 16, 17], [11, 12, 14, 15], [14, 15, 17, 18]]),
        Inr ([14], [[12, 13, 15, 16]])],
       example_exhausted)"
    by code_simp
  have ok: "list_all returned
      [Inr ([15, 13, 16], [[13, 14, 16, 17], [11, 12, 14, 15], [14, 15, 17, 18]]),
       Inr ([14], [[12, 13, 15, 16]])]"
    by code_simp
  show ?thesis
    by (rule exhaustion [OF B N perm len run ok])
qed

text \<open>
  Claim C3 as stated, for every \<open>N\<close>, fails at \<open>N = 2C\<close>: there is no position and
  \<open>ceil (0 / B) = 0\<close>, but the first request returns an empty batch instead of raising
  \<^verbatim>\<open>StopIteration\<close>.
\<close>

theorem exhaustion_counterexample:
  "ceil_div (int (length short_corpus) - 2 * 2) 1 = 0 \<and>
   permutation_ok (n_positions short_corpus 2) [] \<and>
   randint_ok (2 - 1) 0 \<and>
   fst (WindowIterator_next \<lparr>randint_value = 0, shuffle_perm = []\<rparr>
         (WindowIterator_init [] short_corpus 2 1 False [])) = Inr ([], [])"
  by code_simp

subsection \<open>Reshuffling with repetition\<close>




subsection \<open>The context of a center\<close>

text \<open>
  Claim C5. A request that returns a batch, with the sub-radius \<open>w = r + 1\<close> for the value
  \<open>r\<close> of the generator, returns for each drawn position the token at the position and
  the tokens at the offsets \<open>-w, ..., -1, 1, ..., w\<close> from it: \<open>2w\<close> entries, none at
  offset 0.
\<close>

theorem context_offsets:
  assumes ret: "WindowIterator_next d (h, it) = (Inr (center, context), s')"
    and r: "randint_ok (window it - 1) (randint_value d)"
  shows "1 \<le> randint_value d + 1 \<and>
         center = map (\<lambda>p. element (h ! dataset it) (sint p)) (position_of h it) \<and>
         context = map (\<lambda>p. map (\<lambda>off. element (h ! dataset it) (sint p + off))
                      ([- (randint_value d + 1)..- 1] @ [1..randint_value d + 1]))
                     (position_of h it) \<and>
         int (length ([- (randint_value d + 1)..- 1] @ [1..randint_value d + 1])) =
           2 * (randint_value d + 1) \<and>
         0 \<notin> set ([- (randint_value d + 1)..- 1] @ [1..randint_value d + 1])"
proof -
  obtain h' it' where s': "s' = (h', it')" by (cases s')
  have w: "0 \<le> randint_value d" using r by (simp add: randint_ok_def)
  have c: "center = map (element (h ! dataset it)) (map sint (position_of h it))"
    and x: "context = map (map (element (h ! dataset it)))
           (pos_of (position_of h it) (offset_of (randint_value d + 1)))"
    using next_returned(3,4) [OF ret [unfolded s']] by simp_all
  have o: "offset_of (randint_value d + 1) =
      [- (randint_value d + 1)..- 1] @ [1..randint_value d + 1]"
    by (simp add: offset_of_def arange_def add.commute)
  have l: "int (length ([- (randint_value d + 1)..- 1] @ [1..randint_value d + 1])) =
           2 * (randint_value d + 1)"
    using w by simp
  from c x o l w show ?thesis
    by (simp add: pos_of_def comp_def)
qed

theorem context_offsets_witness:
  "1 \<le> randint_value example_draw + 1 \<and>
   [15, 13, 16] = map (\<lambda>p. element (fst example_start ! dataset (snd example_start)) (sint p))
       (position_of (fst example_start) (snd example_start)) \<and>
   [[13, 14, 16, 17], [11, 12, 14, 15], [14, 15, 17, 18]] =
     map (\<lambda>p. map (\<lambda>off. element (fst example_start ! dataset (snd example_start)) (sint p + off))
                      ([- (randint_value example_draw + 1)..- 1] @
                       [1..randint_value example_draw + 1]))
       (position_of (fst example_start) (snd example_start)) \<and>
   int (length ([- (randint_value example_draw + 1)..- 1] @
                [1..randint_value example_draw + 1])) =
     2 * (randint_value example_draw + 1) \<and>
   0 \<notin> set ([- (randint_value example_draw + 1)..- 1] @ [1..randint_value example_draw + 1])"
proof -
  have ret: "WindowIterator_next example_draw (fst example_start, snd example_start) =
      (Inr ([15, 13, 16], [[13, 14, 16, 17], [11, 12, 14, 15], [14, 15, 17, 18]]),
       example_second)"
    by code_simp
  have r: "randint_ok (window (snd example_start) - 1) (randint_value example_draw)"
    by code_simp
  show ?thesis
    by (rule context_offsets [OF ret r])
qed

subsection \<open>The size of a batch\<close>




subsection \<open>What a request changes in the store\<close>

text \<open>
  Claim C7, as the code has it. Whatever the requests made, the iterator keeps the two
  arrays \<^verbatim>\<open>__init__\<close> created: no array is added to the store, no other array of the
  store changes, the corpus array holds the corpus as given, and the sampling order is
  the same array object, its contents a permutation of the initial ones (it is shuffled
  in place at an epoch boundary).
\<close>

theorem order_shuffled_in_place:
  assumes run: "WindowIterator_run ds (WindowIterator_init h0 data C B rep perm) = (rs, h, it)"
    and sh: "list_all (\<lambda>d. permutation_ok (length perm) (shuffle_perm d)) ds"
  shows "length h = length h0 + 2 \<and> take (length h0) h = h0 \<and>
         dataset it = length h0 \<and> order it = length h0 + 1 \<and>
         h ! dataset it = data \<and> mset (h ! order it) = mset (initial_order C perm)"
  using run_init_frame [OF run] run_init_order_mset [OF run sh] by simp

theorem order_shuffled_in_place_witness:
  "length (fst example_third) = length ([] :: heap) + 2 \<and>
   take (length ([] :: heap)) (fst example_third) = [] \<and>
   dataset (snd example_third) = length ([] :: heap) \<and>
   order (snd example_third) = length ([] :: heap) + 1 \<and>
   fst example_third ! dataset (snd example_third) = example_corpus \<and>
   mset (fst example_third ! order (snd example_third)) = mset (initial_order 3 [2, 0, 3, 1])"
proof -
  have run: "WindowIterator_run [example_draw, example_draw]
      (WindowIterator_init [] example_corpus 3 3 True [2, 0, 3, 1]) =
      (fst (WindowIterator_run [example_draw, example_draw] example_start),
       fst example_third, snd example_third)"
    by code_simp
  have sh: "list_all (\<lambda>d. permutation_ok (length [2, 0, 3, 1 :: nat]) (shuffle_perm d))
      [example_draw, example_draw]"
    by code_simp
  show ?thesis
    by (rule order_shuffled_in_place [OF run sh])
qed

text \<open>
  Claim C7 as stated, the order being replaced by a fresh array and not mutated in place,
  fails: across the epoch boundary of the second request the attribute \<^verbatim>\<open>order\<close> holds
  the same address, the store has as many arrays as before, and the contents of the array
  at that address have changed.
\<close>

theorem order_replaced_counterexample:
  "epoch (snd example_second) = 0 \<and> epoch (snd example_third) = 1 \<and>
   order (snd example_third) = order (snd example_second) \<and>
   length (fst example_third) = length (fst example_second) \<and>
   fst example_second ! order (snd example_second) = [5, 3, 6, 4] \<and>
   fst example_third ! order (snd example_second) = [3, 5, 4, 6]"
  by code_simp

subsection \<open>Serialization\<close>

text \<open>
  Claim C8 says \<^verbatim>\<open>serialize\<close> succeeds on every iterator. The code assigns the cursor,
  the epoch counter and \<^verbatim>\<open>is_new_epoch\<close> from the serializer and then reads
  \<^verbatim>\<open>self._order\<close>, an attribute \<^verbatim>\<open>__init__\<close> never sets (it sets \<^verbatim>\<open>self.order\<close>): every
  call raises \<^verbatim>\<open>AttributeError\<close>.
\<close>

theorem serialize_raises:
  "WindowIterator_serialize ser it =
     (Inl AttributeError,
      it\<lparr>current_position := ser_int ser ''current_position'' (current_position it),
         epoch := ser_int ser ''epoch'' (epoch it),
         is_new_epoch := ser_bool ser ''is_new_epoch'' (is_new_epoch it)\<rparr>)"
  by (simp add: WindowIterator_serialize_def hasattr_def attribute_names_def Let_def)

theorem serialize_raises_witness:
  "WindowIterator_serialize \<lparr>ser_int = (\<lambda>key v. v), ser_bool = (\<lambda>key v. v)\<rparr>
     (snd example_start) =
   (Inl AttributeError, snd example_start)"
  using serialize_raises [of "\<lparr>ser_int = (\<lambda>key v. v), ser_bool = (\<lambda>key v. v)\<rparr>"
      "snd example_start"]
  by simp

subsection \<open>Window radius one\<close>

text \<open>
  Claim C10. For an iterator constructed with window 1, every request raises
  \<^verbatim>\<open>ValueError\<close> at the draw of the sub-radius (\<^verbatim>\<open>np.random.randint(0)\<close>) and leaves the
  state as constructed, so no batch is ever returned.
\<close>

theorem window_one_never_returns:
  "WindowIterator_run ds (WindowIterator_init h0 data 1 B rep perm) =
     (replicate (length ds) (Inl ValueError), WindowIterator_init h0 data 1 B rep perm)"
proof (induction ds)
  case Nil
  then show ?case by simp
next
  case (Cons d ds)
  have "WindowIterator_next d (WindowIterator_init h0 data 1 B rep perm) =
      (Inl ValueError, WindowIterator_init h0 data 1 B rep perm)"
    unfolding WindowIterator_init_def by (rule next_window_one) simp_all
  with Cons.IH show ?case by simp
qed

theorem window_one_never_returns_witness:
  "WindowIterator_run [example_draw, example_draw]
     (WindowIterator_init [] example_corpus 1 3 True [2, 0, 3, 1, 4, 5, 6, 7]) =
   ([Inl ValueError, Inl ValueError],
    WindowIterator_init [] example_corpus 1 3 True [2, 0, 3, 1, 4, 5, 6, 7])"
  using window_one_never_returns [of "[example_draw, example_draw]" "[]" example_corpus 3 True
      "[2, 0, 3, 1, 4, 5, 6, 7]"]
  by simp

end
